theory Spec2Isabelle
  imports Complex_Main
begin

section \<open>JavaScript values and errors\<close>

text \<open>
  The drone dashboard is JavaScript. The values that travel in the feed's JSON are modelled
  by \<open>jsval\<close>; a JavaScript \<open>undefined\<close> (a missing key, an index out of range) is
  \<open>None\<close> of an option type. A thrown exception is the left summand of a sum type.
  A number of the feed's JSON is the real it denotes; the arithmetic of the curve smoother
  is the arithmetic of IEEE doubles, modelled in its own section.
\<close>

datatype jsval = Null | Bool bool | Str string | Num real

datatype error = TypeError

text \<open>Truthiness of a value that an \<open>if\<close>, \<open>!\<close>, \<open>&&\<close> or \<open>?:\<close> tests.\<close>

fun truthy_bool :: "bool option \<Rightarrow> bool" where
  "truthy_bool None = False"
| "truthy_bool (Some b) = b"

fun truthy :: "jsval option \<Rightarrow> bool" where
  "truthy None = False"
| "truthy (Some Null) = False"
| "truthy (Some (Bool b)) = b"
| "truthy (Some (Str s)) = (s \<noteq> [])"
| "truthy (Some (Num x)) = (x \<noteq> 0)"

text \<open>\<open>String.prototype.split\<close> with a one-character separator: never an empty array.\<close>

fun js_split :: "char \<Rightarrow> string \<Rightarrow> string list" where
  "js_split sep [] = [[]]"
| "js_split sep (c # cs) =
     (if c = sep then [] # js_split sep cs
      else (case js_split sep cs of
              [] \<Rightarrow> [[c]]
            | s # ss \<Rightarrow> (c # s) # ss))"

text \<open>Array indexing \<open>xs[i]\<close>: \<open>undefined\<close> out of range.\<close>

definition js_index :: "'a list \<Rightarrow> nat \<Rightarrow> 'a option" where
  "js_index xs i = (if i < length xs then Some (xs ! i) else None)"

definition startsWith :: "string \<Rightarrow> string \<Rightarrow> bool" where
  "startsWith s p = (take (length p) s = p)"

text \<open>
  The expression \<open>registration.split("-")[1]?.startsWith(p)\<close>, shared by all three
  classifiers: \<open>undefined\<close> when there is no second segment.
\<close>

definition second_segment_startsWith :: "string \<Rightarrow> string \<Rightarrow> bool option" where
  "second_segment_startsWith registration p =
     map_option (\<lambda>seg. startsWith seg p) (js_index (js_split CHR ''-'' registration) 1)"

section \<open>Data model\<close>

type_synonym coord = "real \<times> real"

type_synonym props = "string \<rightharpoonup> jsval"

record geometry =
  gtype :: string
  coordinates :: "coord option"

text \<open>
  A feature of an incoming feed message. A message can lack \<open>properties\<close> or
  \<open>geometry\<close>; a geometry can lack its coordinates and the properties their registration.
\<close>

record feature =
  feat_properties :: "props option"
  feat_geometry :: "geometry option"
  feat_extra :: props

record feed_message =
  features :: "feature list"

text \<open>
  A record of the store (\<open>droneData\<close>): a feature extended with \<open>positions\<close>. Records are
  only ever built by \<open>mergeDroneData\<close>, after it has read the feature's properties and
  geometry, so both are present.
\<close>

record drone =
  properties :: props
  geometry :: geometry
  positions :: "coord option list"
  extra :: props

definition registration_of :: "props \<Rightarrow> jsval option" where
  "registration_of p = p ''registration''"

section \<open>Status classification\<close>

definition ACTIVE_PREFIX :: string where
  "ACTIVE_PREFIX = ''B''"

definition COLORS_ACTIVE :: string where
  "COLORS_ACTIVE = ''#00FF00''"

definition COLORS_INACTIVE :: string where
  "COLORS_INACTIVE = ''#FF0000''"

record drone_status =
  isFlyable :: "bool option"
  color :: string
  status :: string

text \<open>\<open>getDroneStatus\<close> of MapContainer. Calling \<open>.split\<close> on anything but a string throws.\<close>

fun getDroneStatus :: "jsval option \<Rightarrow> error + drone_status" where
  "getDroneStatus (Some (Str registration)) =
     (let isFlyable = second_segment_startsWith registration ''B''
      in Inr \<lparr> isFlyable = isFlyable,
               color = (if truthy_bool isFlyable then COLORS_ACTIVE else COLORS_INACTIVE),
               status = (if truthy_bool isFlyable then ''Active'' else ''Inactive'') \<rparr>)"
| "getDroneStatus _ = Inl TypeError"

text \<open>\<open>getStatusColor\<close> of DroneMenu.\<close>

fun getStatusColor :: "jsval option \<Rightarrow> error + string" where
  "getStatusColor (Some (Str registration)) =
     (let prefix = second_segment_startsWith registration ''B''
      in Inr (if truthy_bool prefix then ''bg-[#5CFC00]'' else ''bg-[#F9000E]''))"
| "getStatusColor _ = Inl TypeError"

text \<open>\<open>isDroneActive\<close> of MapPage: the source negates the test.\<close>

fun isDroneActive :: "jsval option \<Rightarrow> error + bool" where
  "isDroneActive (Some (Str registration)) =
     Inr (\<not> truthy_bool (second_segment_startsWith registration ACTIVE_PREFIX))"
| "isDroneActive _ = Inl TypeError"

section \<open>Statistics\<close>

record drone_stats =
  active :: nat
  inactive :: nat
  total :: nat

text \<open>\<open>Array.prototype.filter\<close> with a callback that may throw: the exception ends the call.\<close>

fun js_filter :: "('a \<Rightarrow> error + bool) \<Rightarrow> 'a list \<Rightarrow> error + 'a list" where
  "js_filter p [] = Inr []"
| "js_filter p (x # xs) =
     (case p x of
        Inl e \<Rightarrow> Inl e
      | Inr b \<Rightarrow> (case js_filter p xs of
                   Inl e \<Rightarrow> Inl e
                 | Inr ys \<Rightarrow> Inr (if b then x # ys else ys)))"

definition calculateDroneStats :: "drone list \<Rightarrow> error + drone_stats" where
  "calculateDroneStats droneData =
     (case js_filter (\<lambda>drone. isDroneActive (registration_of (properties drone))) droneData of
        Inl e \<Rightarrow> Inl e
      | Inr activeDrones \<Rightarrow>
          (case js_filter (\<lambda>drone. map_sum id Not (isDroneActive (registration_of (properties drone))))
                  droneData of
             Inl e \<Rightarrow> Inl e
           | Inr inactiveDrones \<Rightarrow>
               Inr \<lparr> active = length activeDrones,
                     inactive = length inactiveDrones,
                     total = length droneData \<rparr>))"

text \<open>A store record that carries nothing but a registration, for concrete runs.\<close>

definition example_drone :: "string \<Rightarrow> drone" where
  "example_drone r = \<lparr> properties = [''registration'' \<mapsto> Str r],
                       geometry = \<lparr> gtype = ''Point'', coordinates = Some (0, 0) \<rparr>,
                       positions = [Some (0, 0)], extra = Map.empty \<rparr>"

section \<open>The drone state store\<close>

text \<open>\<open>Array.prototype.findIndex\<close>: the first index that satisfies the test; \<open>None\<close> is \<open>-1\<close>.\<close>

fun findIndex :: "('a \<Rightarrow> bool) \<Rightarrow> 'a list \<Rightarrow> nat option" where
  "findIndex P [] = None"
| "findIndex P (x # xs) = (if P x then Some 0 else map_option Suc (findIndex P xs))"

text \<open>
  The body of the \<open>forEach\<close> callback of \<open>mergeDroneData\<close>, for one incoming feature.
  Reading \<open>newDrone.properties.registration\<close> throws when the feature has no properties, and
  reading \<open>newDrone.geometry.coordinates\<close> throws when it has no geometry. The object spread
  \<open>{...existing.properties, ...newDrone.properties}\<close> is the map \<open>++\<close>.
\<close>

definition mergeDroneData_step :: "drone list \<Rightarrow> feature \<Rightarrow> error + drone list" where
  "mergeDroneData_step updated newDrone =
     (case feat_properties newDrone of
        None \<Rightarrow> Inl TypeError
      | Some newProperties \<Rightarrow>
          (let registration = registration_of newProperties;
               existingIndex =
                 findIndex (\<lambda>drone. registration_of (properties drone) = registration) updated
           in case existingIndex of
                Some i \<Rightarrow>
                  (let existing = updated ! i
                   in case feat_geometry newDrone of
                        None \<Rightarrow> Inl TypeError
                      | Some newGeometry \<Rightarrow>
                          Inr (updated[i := existing
                                 \<lparr> positions := positions existing @ [coordinates newGeometry],
                                   geometry := newGeometry,
                                   properties := properties existing ++ newProperties \<rparr>]))
              | None \<Rightarrow>
                  (case feat_geometry newDrone of
                     None \<Rightarrow> Inl TypeError
                   | Some newGeometry \<Rightarrow>
                       Inr (updated @ [\<lparr> properties = newProperties,
                                         geometry = newGeometry,
                                         positions = [coordinates newGeometry],
                                         extra = feat_extra newDrone \<rparr>]))))"

text \<open>The \<open>forEach\<close> loop: an exception in the callback ends the loop and the call.\<close>

fun mergeDroneData_forEach :: "drone list \<Rightarrow> feature list \<Rightarrow> error + drone list" where
  "mergeDroneData_forEach updated [] = Inr updated"
| "mergeDroneData_forEach updated (newDrone # rest) =
     (case mergeDroneData_step updated newDrone of
        Inl e \<Rightarrow> Inl e
      | Inr updated' \<Rightarrow> mergeDroneData_forEach updated' rest)"

definition mergeDroneData :: "drone list \<Rightarrow> feed_message \<Rightarrow> error + drone list" where
  "mergeDroneData previousData newData = mergeDroneData_forEach previousData (features newData)"

text \<open>
  The store states of a session: \<open>useState([])\<close>, then one \<open>mergeDroneData\<close> per message
  (\<open>handleMessage\<close>). A merge that throws installs no state and ends the session, so the
  states of a session are those that successful merges produce.
\<close>

inductive reachable :: "drone list \<Rightarrow> bool" where
  initial: "reachable []"
| merged: "reachable s \<Longrightarrow> mergeDroneData s newData = Inr s' \<Longrightarrow> reachable s'"

definition history_ok :: "drone \<Rightarrow> bool" where
  "history_ok d = (positions d \<noteq> [] \<and> last (positions d) = coordinates (geometry d))"

text \<open>A well-formed feed feature: a GeoJSON point with the given properties.\<close>

definition point_update :: "props \<Rightarrow> coord \<Rightarrow> feature" where
  "point_update p c = \<lparr> feat_properties = Some p,
                        feat_geometry = Some \<lparr> gtype = ''Point'', coordinates = Some c \<rparr>,
                        feat_extra = [''type'' \<mapsto> Str ''Feature''] \<rparr>"

text \<open>The number of positions recorded in a store, over all its records.\<close>

definition history_size :: "drone list \<Rightarrow> nat" where
  "history_size s = sum_list (map (\<lambda>d. length (positions d)) s)"

text \<open>The record that a first update for \<open>R1\<close> at \<open>(10, 20)\<close> creates.\<close>

definition first_record :: drone where
  "first_record = \<lparr> properties = [''registration'' \<mapsto> Str ''R1''],
                     geometry = \<lparr> gtype = ''Point'', coordinates = Some (10, 20) \<rparr>,
                     positions = [Some (10, 20)],
                     extra = [''type'' \<mapsto> Str ''Feature''] \<rparr>"

text \<open>Feed features that lack something: a geometry, a registration, the coordinates.\<close>

definition no_geometry_update :: feature where
  "no_geometry_update = \<lparr> feat_properties = Some [''registration'' \<mapsto> Str ''R1''],
                           feat_geometry = None,
                           feat_extra = [''type'' \<mapsto> Str ''Feature''] \<rparr>"

definition no_registration_update :: feature where
  "no_registration_update = point_update [''Name'' \<mapsto> Str ''Dji Mavic''] (1, 2)"

definition no_coordinates_update :: feature where
  "no_coordinates_update = \<lparr> feat_properties = Some [''registration'' \<mapsto> Str ''R1''],
                              feat_geometry = Some \<lparr> gtype = ''Point'', coordinates = None \<rparr>,
                              feat_extra = [''type'' \<mapsto> Str ''Feature''] \<rparr>"

section \<open>Double arithmetic\<close>

text \<open>
  A JavaScript number is an IEEE double: a finite value (the real it denotes), an infinity
  or NaN. Zero is unsigned here: \<open>-0\<close> and \<open>0\<close> are both \<open>Fin 0\<close>, as \<open>===\<close> has them.
\<close>

datatype jsnum = Fin real | PosInf | NegInf | NaN

type_synonym point = "jsnum \<times> jsnum"

text \<open>\<open>Number.MAX_VALUE\<close>, the largest finite double.\<close>

definition MAX_VALUE :: real where
  "MAX_VALUE = 2 ^ 1024 - 2 ^ 971"

text \<open>
  The double that an operation returns for the exact result \<open>x\<close>. \<open>rnd\<close> is the rounding
  to the nearest double with the exponent unbounded; a rounded value beyond
  \<open>MAX_VALUE\<close> overflows to an infinity. The rounding function is a parameter of every
  operation, so nothing below depends on how a finite result is rounded.
\<close>

definition to_double :: "(real \<Rightarrow> real) \<Rightarrow> real \<Rightarrow> jsnum" where
  "to_double rnd x =
     (let r = rnd x
      in if MAX_VALUE < r then PosInf else if r < - MAX_VALUE then NegInf else Fin r)"

text \<open>
  The operators \<open>-x\<close>, \<open>+\<close>, \<open>-\<close>, \<open>*\<close> and \<open>/\<close>, and \<open>Math.sqrt\<close> and \<open>Math.min\<close>,
  with the IEEE rules for the infinities and NaN. A zero divisor counts as \<open>+0\<close>; the
  smoother divides by the constants 2 and \<open>CURVE_STEPS\<close> only.
\<close>

fun js_neg :: "jsnum \<Rightarrow> jsnum" where
  "js_neg (Fin x) = Fin (- x)"
| "js_neg PosInf = NegInf"
| "js_neg NegInf = PosInf"
| "js_neg NaN = NaN"

fun js_add :: "(real \<Rightarrow> real) \<Rightarrow> jsnum \<Rightarrow> jsnum \<Rightarrow> jsnum" where
  "js_add rnd (Fin x) (Fin y) = to_double rnd (x + y)"
| "js_add rnd NaN b = NaN"
| "js_add rnd a NaN = NaN"
| "js_add rnd PosInf NegInf = NaN"
| "js_add rnd NegInf PosInf = NaN"
| "js_add rnd PosInf b = PosInf"
| "js_add rnd NegInf b = NegInf"
| "js_add rnd a b = b"

definition js_sub :: "(real \<Rightarrow> real) \<Rightarrow> jsnum \<Rightarrow> jsnum \<Rightarrow> jsnum" where
  "js_sub rnd a b = js_add rnd a (js_neg b)"

fun js_mul :: "(real \<Rightarrow> real) \<Rightarrow> jsnum \<Rightarrow> jsnum \<Rightarrow> jsnum" where
  "js_mul rnd (Fin x) (Fin y) = to_double rnd (x * y)"
| "js_mul rnd NaN b = NaN"
| "js_mul rnd a NaN = NaN"
| "js_mul rnd (Fin x) b =
     (if x = 0 then NaN else if (0 < x) = (b = PosInf) then PosInf else NegInf)"
| "js_mul rnd a (Fin y) =
     (if y = 0 then NaN else if (0 < y) = (a = PosInf) then PosInf else NegInf)"
| "js_mul rnd a b = (if a = b then PosInf else NegInf)"

fun js_div :: "(real \<Rightarrow> real) \<Rightarrow> jsnum \<Rightarrow> jsnum \<Rightarrow> jsnum" where
  "js_div rnd (Fin x) (Fin y) =
     (if y = 0 then (if x = 0 then NaN else if 0 < x then PosInf else NegInf)
      else to_double rnd (x / y))"
| "js_div rnd NaN b = NaN"
| "js_div rnd a NaN = NaN"
| "js_div rnd (Fin x) b = Fin 0"
| "js_div rnd a (Fin y) = (if (0 \<le> y) = (a = PosInf) then PosInf else NegInf)"
| "js_div rnd a b = NaN"

fun js_sqrt :: "(real \<Rightarrow> real) \<Rightarrow> jsnum \<Rightarrow> jsnum" where
  "js_sqrt rnd (Fin x) = (if x < 0 then NaN else to_double rnd (sqrt x))"
| "js_sqrt rnd PosInf = PosInf"
| "js_sqrt rnd NegInf = NaN"
| "js_sqrt rnd NaN = NaN"

fun js_min :: "jsnum \<Rightarrow> jsnum \<Rightarrow> jsnum" where
  "js_min (Fin x) (Fin y) = Fin (min x y)"
| "js_min NaN b = NaN"
| "js_min a NaN = NaN"
| "js_min NegInf b = NegInf"
| "js_min a NegInf = NegInf"
| "js_min PosInf b = b"
| "js_min a PosInf = a"

text \<open>
  What the theorems need of the rounding: it is monotone and leaves zero and the powers
  of two unchanged, as rounding to the nearest double does.
\<close>

definition rounding :: "(real \<Rightarrow> real) \<Rightarrow> bool" where
  "rounding rnd =
     ((\<forall>x y. x \<le> y \<longrightarrow> rnd x \<le> rnd y) \<and> rnd 0 = 0 \<and>
      (\<forall>k::nat. rnd (2 ^ k) = 2 ^ k \<and> rnd (- (2 ^ k)) = - (2 ^ k)))"

text \<open>
  \<open>is_double\<close>: a finite double (a value that rounding leaves unchanged, within range);
  \<open>is_finite\<close>: neither an infinity nor NaN; \<open>bounded k\<close>: finite, of magnitude at most
  \<open>2 ^ k\<close>.
\<close>

fun is_double :: "(real \<Rightarrow> real) \<Rightarrow> jsnum \<Rightarrow> bool" where
  "is_double rnd (Fin x) = (rnd x = x \<and> \<bar>x\<bar> \<le> MAX_VALUE)"
| "is_double rnd v = False"

fun is_finite :: "jsnum \<Rightarrow> bool" where
  "is_finite (Fin x) = True"
| "is_finite v = False"

fun bounded :: "nat \<Rightarrow> jsnum \<Rightarrow> bool" where
  "bounded k (Fin x) = (\<bar>x\<bar> \<le> 2 ^ k)"
| "bounded k v = False"

section \<open>The curve smoother\<close>

text \<open>
  The constants of \<open>DRONE_CONFIG\<close> that the smoother reads. The literals \<open>0.3\<close> and
  \<open>0.01\<close> are the doubles nearest to them.
\<close>

definition CURVE_STEPS :: nat where
  "CURVE_STEPS = 20"

definition CURVE_OFFSET_FACTOR :: "(real \<Rightarrow> real) \<Rightarrow> jsnum" where
  "CURVE_OFFSET_FACTOR rnd = Fin (rnd (3 / 10))"

definition MAX_CURVE_OFFSET :: "(real \<Rightarrow> real) \<Rightarrow> jsnum" where
  "MAX_CURVE_OFFSET rnd = Fin (rnd (1 / 100))"

text \<open>
  The control point of the segment from \<open>start\<close> to \<open>endpt\<close> (the source's \<open>end\<close>): the
  midpoint, displaced across the segment. A coordinate pair is \<open>(lng, lat)\<close>, so
  \<open>start[0]\<close> is \<open>fst start\<close> and \<open>start[1]\<close> is \<open>snd start\<close>. Every operator is the
  double operation, in the source's order of evaluation.
\<close>

definition control_point :: "(real \<Rightarrow> real) \<Rightarrow> point \<Rightarrow> point \<Rightarrow> point" where
  "control_point rnd start endpt =
     (let midLat = js_div rnd (js_add rnd (snd start) (snd endpt)) (Fin 2);
          midLng = js_div rnd (js_add rnd (fst start) (fst endpt)) (Fin 2);
          dx = js_sub rnd (fst endpt) (fst start);
          dy = js_sub rnd (snd endpt) (snd start);
          distance = js_sqrt rnd (js_add rnd (js_mul rnd dx dx) (js_mul rnd dy dy));
          curveOffset = js_min (js_mul rnd distance (CURVE_OFFSET_FACTOR rnd))
                               (MAX_CURVE_OFFSET rnd);
          controlLng = js_sub rnd midLng (js_mul rnd dy curveOffset);
          controlLat = js_add rnd midLat (js_mul rnd dx curveOffset)
      in (controlLng, controlLat))"

text \<open>The point \<open>[lng, lat]\<close> that the inner loop computes at step \<open>t\<close>.\<close>

definition bezier_point ::
  "(real \<Rightarrow> real) \<Rightarrow> point \<Rightarrow> point \<Rightarrow> jsnum \<Rightarrow> jsnum \<Rightarrow> nat \<Rightarrow> point" where
  "bezier_point rnd start endpt controlLng controlLat t =
     (let u = js_div rnd (Fin (real t)) (Fin (real CURVE_STEPS));
          u2 = js_mul rnd u u;
          u3 = js_sub rnd (Fin 1) u;
          u4 = js_mul rnd u3 u3;
          lat = js_add rnd
                  (js_add rnd (js_mul rnd u4 (snd start))
                     (js_mul rnd (js_mul rnd (js_mul rnd (Fin 2) u3) u) controlLat))
                  (js_mul rnd u2 (snd endpt));
          lng = js_add rnd
                  (js_add rnd (js_mul rnd u4 (fst start))
                     (js_mul rnd (js_mul rnd (js_mul rnd (Fin 2) u3) u) controlLng))
                  (js_mul rnd u2 (fst endpt))
      in (lng, lat))"

text \<open>
  The inner loop \<open>for (let t = 0; t <= CURVE_STEPS; t++)\<close> of segment \<open>i\<close>: it pushes
  the point of step \<open>t\<close> when \<open>t > 0 || i === 0\<close>.
\<close>

function inner_loop ::
  "(real \<Rightarrow> real) \<Rightarrow> nat \<Rightarrow> point \<Rightarrow> point \<Rightarrow> jsnum \<Rightarrow> jsnum \<Rightarrow> nat \<Rightarrow> point list
     \<Rightarrow> point list" where
  "inner_loop rnd i start endpt controlLng controlLat t curvedCoords =
     (if t \<le> CURVE_STEPS
      then inner_loop rnd i start endpt controlLng controlLat (t + 1)
             (if t > 0 \<or> i = 0
              then curvedCoords @ [bezier_point rnd start endpt controlLng controlLat t]
              else curvedCoords)
      else curvedCoords)"
  by pat_completeness auto
termination
  by (relation "measure (\<lambda>(rnd, i, start, endpt, controlLng, controlLat, t, curvedCoords).
                            CURVE_STEPS + 1 - t)") auto

text \<open>The outer loop \<open>for (let i = 0; i < coordinates.length - 1; i++)\<close>.\<close>

function outer_loop ::
  "(real \<Rightarrow> real) \<Rightarrow> point list \<Rightarrow> nat \<Rightarrow> point list \<Rightarrow> point list" where
  "outer_loop rnd coords i curvedCoords =
     (if i < length coords - 1
      then (let start = coords ! i;
                endpt = coords ! (i + 1);
                (controlLng, controlLat) = control_point rnd start endpt
            in outer_loop rnd coords (i + 1)
                 (inner_loop rnd i start endpt controlLng controlLat 0 curvedCoords))
      else curvedCoords)"
  by pat_completeness auto
termination
  by (relation "measure (\<lambda>(rnd, coords, i, curvedCoords). length coords - 1 - i)") auto

declare inner_loop.simps [simp del]
declare outer_loop.simps [simp del]

text \<open>\<open>createCurvedPath\<close>: the input itself below two points, else the loops from \<open>[coordinates[0]]\<close>.\<close>

definition createCurvedPath :: "(real \<Rightarrow> real) \<Rightarrow> point list \<Rightarrow> point list" where
  "createCurvedPath rnd coords =
     (if length coords < 2 then coords else outer_loop rnd coords 0 [coords ! 0])"

text \<open>The points that segment \<open>i\<close> adds to the output.\<close>

definition segment_samples :: "(real \<Rightarrow> real) \<Rightarrow> point list \<Rightarrow> nat \<Rightarrow> point list" where
  "segment_samples rnd coords i =
     map (bezier_point rnd (coords ! i) (coords ! (i + 1))
            (fst (control_point rnd (coords ! i) (coords ! (i + 1))))
            (snd (control_point rnd (coords ! i) (coords ! (i + 1)))))
       (filter (\<lambda>t. t > 0 \<or> i = 0) [0..<Suc CURVE_STEPS])"

text \<open>Points whose two coordinates are finite doubles, are finite, are bounded by \<open>2 ^ k\<close>.\<close>

definition double_point :: "(real \<Rightarrow> real) \<Rightarrow> point \<Rightarrow> bool" where
  "double_point rnd p = (is_double rnd (fst p) \<and> is_double rnd (snd p))"

definition finite_point :: "point \<Rightarrow> bool" where
  "finite_point p = (is_finite (fst p) \<and> is_finite (snd p))"

definition bounded_point :: "nat \<Rightarrow> point \<Rightarrow> bool" where
  "bounded_point k p = (bounded k (fst p) \<and> bounded k (snd p))"

text \<open>
  Coordinates of magnitude up to \<open>2 ^ SAFE_EXPONENT\<close> (about \<open>3e150\<close>) cannot overflow the
  control point; every longitude and latitude is far below.
\<close>

definition SAFE_EXPONENT :: nat where
  "SAFE_EXPONENT = 500"

text \<open>
  Two points with finite coordinates, \<open>2 ^ 1023\<close> (about \<open>9e307\<close>) and \<open>3 * 2 ^ 1022\<close>
  (about \<open>1.35e308\<close>), whose midpoint sum overflows.
\<close>

definition overflow_start :: point where
  "overflow_start = (Fin (2 ^ 1023), Fin (2 ^ 1023))"

definition overflow_end :: point where
  "overflow_end = (Fin (3 * 2 ^ 1022), Fin (3 * 2 ^ 1022))"

section \<open>Selection and the camera-fly guard\<close>

text \<open>
  The selection lives in two places: \<open>selectedDrone\<close> (React state of MapPage, \<open>null\<close>
  at first) and the flag \<open>isProgrammaticMove\<close> (a ref of MapContainer). JavaScript runs
  one handler at a time, so the system is a state machine over time-stamped events; time is
  in milliseconds. \<open>timers\<close> holds the due times of the pending \<open>setTimeout\<close> callbacks
  that clear the flag; the source never cancels one. A callback runs when its due time has
  come, before any later event.
\<close>

definition FLY_DURATION :: nat where
  "FLY_DURATION = 1000"

definition ANIMATION_BUFFER :: nat where
  "ANIMATION_BUFFER = 1100"

record ui_state =
  droneData :: "drone list"
  selectedDrone :: "jsval option"
  isProgrammaticMove :: bool
  timers :: "nat list"

text \<open>
  The events: a click on the marker or list item of a drone (with that drone's
  registration), a map interaction whose handler calls \<open>resetSelection\<close> (drag start,
  wheel, box zoom, double click, touch start, click on the background), and a feed message.
\<close>

datatype event = Select "jsval option" | Interaction | FeedMessage feed_message

text \<open>The timeout callbacks that are due: each sets \<open>isProgrammaticMove.current = false\<close>.\<close>

definition fire_timers :: "nat \<Rightarrow> ui_state \<Rightarrow> ui_state" where
  "fire_timers now st =
     (if list_ex (\<lambda>due. due \<le> now) (timers st)
      then st \<lparr> isProgrammaticMove := False,
                timers := filter (\<lambda>due. now < due) (timers st) \<rparr>
      else st)"

text \<open>
  The camera part of MapContainer's effect on \<open>[droneData, selectedDrone]\<close>. The effect
  has created a marker for every record of \<open>droneData\<close> just before, so the test on
  \<open>markersRef.current[selectedDrone]\<close> holds whenever \<open>droneData.find\<close> succeeds.
\<close>

definition flyToSelected :: "nat \<Rightarrow> ui_state \<Rightarrow> ui_state" where
  "flyToSelected now st =
     (if truthy (selectedDrone st)
      then (case find (\<lambda>d. registration_of (properties d) = selectedDrone st) (droneData st) of
              Some drone \<Rightarrow>
                st \<lparr> isProgrammaticMove := True,
                     timers := timers st @ [now + ANIMATION_BUFFER] \<rparr>
            | None \<Rightarrow> st)
      else st)"

text \<open>
  \<open>setSelectedDrone\<close>: React keeps the state and runs no effect when the value is the one
  it has; otherwise the effect runs with the new selection.
\<close>

definition setSelectedDrone :: "nat \<Rightarrow> jsval option \<Rightarrow> ui_state \<Rightarrow> ui_state" where
  "setSelectedDrone now r st =
     (if selectedDrone st = r then st else flyToSelected now (st \<lparr> selectedDrone := r \<rparr>))"

definition resetSelection :: "nat \<Rightarrow> ui_state \<Rightarrow> ui_state" where
  "resetSelection now st =
     (if isProgrammaticMove st then st else setSelectedDrone now None st)"

text \<open>
  \<open>handleMessage\<close>: the merge runs inside the \<open>setDroneData\<close> updater, with no
  \<open>try\<close> around it and no error boundary, so a merge that throws takes the page down:
  the session ends with the error. A new store runs the effect.
\<close>

definition handleMessage :: "nat \<Rightarrow> feed_message \<Rightarrow> ui_state \<Rightarrow> error + ui_state" where
  "handleMessage now newData st =
     (case mergeDroneData (droneData st) newData of
        Inl e \<Rightarrow> Inl e
      | Inr s \<Rightarrow> Inr (flyToSelected now (st \<lparr> droneData := s \<rparr>)))"

fun step :: "nat \<times> event \<Rightarrow> ui_state \<Rightarrow> error + ui_state" where
  "step (now, Select r) st = Inr (setSelectedDrone now r (fire_timers now st))"
| "step (now, Interaction) st = Inr (resetSelection now (fire_timers now st))"
| "step (now, FeedMessage newData) st = handleMessage now newData (fire_timers now st)"

text \<open>A session: the events in the order of their times, until one throws.\<close>

fun run :: "(nat \<times> event) list \<Rightarrow> ui_state \<Rightarrow> error + ui_state" where
  "run [] st = Inr st"
| "run (ev # evs) st =
     (case step ev st of
        Inl e \<Rightarrow> Inl e
      | Inr st' \<Rightarrow> run evs st')"

definition initial_state :: ui_state where
  "initial_state = \<lparr> droneData = [], selectedDrone = None, isProgrammaticMove = False,
                      timers = [] \<rparr>"

text \<open>
  A session that ends unselected with a timeout still pending: two drones arrive, \<open>R1\<close> is
  selected at 0 and \<open>R2\<close> at 600, and a drag at 1200 (after the first timeout, due 1100)
  clears the selection while the second timeout, due 1700, is still to come.
\<close>

definition two_drones :: feed_message where
  "two_drones = \<lparr> features = [point_update [''registration'' \<mapsto> Str ''R1''] (10, 20),
                              point_update [''registration'' \<mapsto> Str ''R2''] (30, 40)] \<rparr>"

definition stale_trace :: "(nat \<times> event) list" where
  "stale_trace = [(0, FeedMessage two_drones),
                  (0, Select (Some (Str ''R1''))),
                  (600, Select (Some (Str ''R2''))),
                  (1200, Interaction)]"

section \<open>Properties of the status classifiers\<close>

lemma js_split_no_sep: "sep \<notin> set x \<Longrightarrow> js_split sep x = [x]"
  by (induction x) auto

lemma js_split_ne: "js_split sep s \<noteq> []"
  by (induction s) (auto split: list.splits)

lemma js_split_append:
  "sep \<notin> set x \<Longrightarrow> js_split sep (x @ sep # r) = x # js_split sep r"
  by (induction x) auto

lemma js_split_head:
  "c \<noteq> sep \<Longrightarrow> \<exists>s ss. js_split sep (c # r) = (c # s) # ss"
  using js_split_ne [of sep r] by (cases "js_split sep r") auto

lemma second_segment_marker:
  assumes "CHR ''-'' \<notin> set x" and "c \<noteq> CHR ''-''"
  shows "second_segment_startsWith (x @ CHR ''-'' # c # r) [m] = Some (c = m)"
proof -
  obtain s ss where "js_split CHR ''-'' (c # r) = (c # s) # ss"
    using js_split_head [OF assms(2)] by blast
  then show ?thesis using assms(1)
    by (simp add: second_segment_startsWith_def js_split_append js_index_def startsWith_def)
qed

lemma second_segment_none:
  "CHR ''-'' \<notin> set x \<Longrightarrow> second_segment_startsWith x p = None"
  by (simp add: second_segment_startsWith_def js_split_no_sep js_index_def)

text \<open>
  Claim C3. A registration \<open>x-B...\<close> (first segment \<open>x\<close>, second segment starting with
  \<open>B\<close>) is classified active by \<open>getDroneStatus\<close> and gets the active colour class from
  \<open>getStatusColor\<close>; a registration \<open>x-A...\<close> and a registration without any second segment
  are classified inactive; and on a registration string neither classifier throws.
\<close>

theorem classifier_patterns:
  assumes "CHR ''-'' \<notin> set x"
  shows "getDroneStatus (Some (Str (x @ ''-B'' @ r))) =
           Inr \<lparr> isFlyable = Some True, color = COLORS_ACTIVE, status = ''Active'' \<rparr> \<and>
         getDroneStatus (Some (Str (x @ ''-A'' @ r))) =
           Inr \<lparr> isFlyable = Some False, color = COLORS_INACTIVE, status = ''Inactive'' \<rparr> \<and>
         getDroneStatus (Some (Str x)) =
           Inr \<lparr> isFlyable = None, color = COLORS_INACTIVE, status = ''Inactive'' \<rparr> \<and>
         getStatusColor (Some (Str (x @ ''-B'' @ r))) = Inr ''bg-[#5CFC00]'' \<and>
         getStatusColor (Some (Str (x @ ''-A'' @ r))) = Inr ''bg-[#F9000E]'' \<and>
         getStatusColor (Some (Str x)) = Inr ''bg-[#F9000E]'' \<and>
         (\<forall>reg. \<exists>st c. getDroneStatus (Some (Str reg)) = Inr st \<and>
                       getStatusColor (Some (Str reg)) = Inr c)"
  using second_segment_marker [OF assms, of "CHR ''B''" r "CHR ''B''"]
    second_segment_marker [OF assms, of "CHR ''A''" r "CHR ''B''"]
    second_segment_none [OF assms, of "''B''"]
  by (simp add: Let_def)

theorem classifier_patterns_witness:
  "getDroneStatus (Some (Str ''R1-B1'')) =
     Inr \<lparr> isFlyable = Some True, color = COLORS_ACTIVE, status = ''Active'' \<rparr> \<and>
   getDroneStatus (Some (Str ''R1-A1'')) =
     Inr \<lparr> isFlyable = Some False, color = COLORS_INACTIVE, status = ''Inactive'' \<rparr> \<and>
   getDroneStatus (Some (Str ''R1'')) =
     Inr \<lparr> isFlyable = None, color = COLORS_INACTIVE, status = ''Inactive'' \<rparr>"
  using classifier_patterns [of "''R1''" "''1''"] by simp

text \<open>
  \<open>isDroneActive\<close> is the negation of the flag that \<open>getDroneStatus\<close> computes, on every
  registration string.
\<close>

lemma isDroneActive_negates:
  "isDroneActive (Some (Str reg)) =
     map_sum id (\<lambda>st. \<not> truthy_bool (isFlyable st)) (getDroneStatus (Some (Str reg)))"
  by (simp add: ACTIVE_PREFIX_def Let_def)

text \<open>
  Claim C2 says that \<open>isDroneActive\<close> and \<open>getDroneStatus\<close> classify alike. They do not:
  on \<open>R1-B1\<close> the map's classifier answers active, and \<open>isDroneActive\<close> answers false.
\<close>

theorem classifiers_disagree:
  "isDroneActive (Some (Str ''R1-B1'')) = Inr False \<and>
   map_sum id (\<lambda>st. truthy_bool (isFlyable st)) (getDroneStatus (Some (Str ''R1-B1''))) = Inr True"
  by (simp add: ACTIVE_PREFIX_def second_segment_startsWith_def js_index_def startsWith_def)

section \<open>Properties of the statistics\<close>

lemma js_filter_total:
  "\<forall>x\<in>set xs. \<exists>b. p x = Inr b \<Longrightarrow>
   js_filter p xs = Inr (filter (\<lambda>x. p x = Inr True) xs)"
  by (induction xs) auto

text \<open>
  Claim C9. For two records registered \<open>R1-B1\<close> and \<open>R2-A1\<close>, whatever else they carry,
  \<open>calculateDroneStats\<close> returns active 1, inactive 1, total 2.
\<close>

theorem stats_example:
  assumes "registration_of (properties d1) = Some (Str ''R1-B1'')"
      and "registration_of (properties d2) = Some (Str ''R2-A1'')"
  shows "calculateDroneStats [d1, d2] = Inr \<lparr> active = 1, inactive = 1, total = 2 \<rparr>"
  using assms
  by (simp add: calculateDroneStats_def ACTIVE_PREFIX_def second_segment_startsWith_def
      js_index_def startsWith_def)

theorem stats_example_witness:
  "calculateDroneStats [example_drone ''R1-B1'', example_drone ''R2-A1''] =
     Inr \<lparr> active = 1, inactive = 1, total = 2 \<rparr>"
  using stats_example [of "example_drone ''R1-B1''" "example_drone ''R2-A1''"]
  by (simp add: example_drone_def registration_of_def)

text \<open>
  Claim C10. When every record has a registration string, \<open>calculateDroneStats\<close> returns,
  and its counts satisfy active + inactive = total, with total the number of records.
\<close>

theorem stats_partition:
  assumes "\<forall>d\<in>set records. \<exists>r. registration_of (properties d) = Some (Str r)"
  shows "\<exists>s. calculateDroneStats records = Inr s \<and>
             active s + inactive s = total s \<and> total s = length records"
proof -
  let ?p = "\<lambda>drone. isDroneActive (registration_of (properties drone))"
  let ?q = "\<lambda>drone. map_sum id Not (?p drone)"
  have p: "\<forall>d\<in>set records. \<exists>b. ?p d = Inr b"
    using assms by auto
  then have q: "\<forall>d\<in>set records. \<exists>b. ?q d = Inr b"
    by auto
  have fp: "js_filter ?p records = Inr (filter (\<lambda>d. ?p d = Inr True) records)"
    using p by (rule js_filter_total)
  have fq: "js_filter ?q records = Inr (filter (\<lambda>d. ?q d = Inr True) records)"
    using q by (rule js_filter_total)
  have compl: "filter (\<lambda>d. ?q d = Inr True) records =
               filter (\<lambda>d. \<not> (?p d = Inr True)) records"
  proof (rule filter_cong [OF refl])
    fix d assume "d \<in> set records"
    then obtain b where "?p d = Inr b" using p by blast
    then show "(?q d = Inr True) = (\<not> (?p d = Inr True))" by simp
  qed
  show ?thesis
    unfolding calculateDroneStats_def fp fq compl
    by (simp add: sum_length_filter_compl)
qed

theorem stats_partition_witness:
  "\<exists>s. calculateDroneStats
          [example_drone ''R1-B1'', example_drone ''R2'', example_drone ''R3-B''] = Inr s \<and>
       active s + inactive s = total s \<and> total s = 3"
  using stats_partition
    [of "[example_drone ''R1-B1'', example_drone ''R2'', example_drone ''R3-B'']"]
  by (simp add: example_drone_def registration_of_def numeral_3_eq_3)

section \<open>Properties of the merge\<close>

lemma findIndex_Some:
  "findIndex P xs = Some i \<Longrightarrow> i < length xs \<and> P (xs ! i) \<and> (\<forall>j<i. \<not> P (xs ! j))"
proof (induction xs arbitrary: i)
  case Nil
  then show ?case by simp
next
  case (Cons x xs)
  show ?case
  proof (cases "P x")
    case True
    with Cons.prems show ?thesis by simp
  next
    case False
    with Cons.prems obtain k where k: "findIndex P xs = Some k" "i = Suc k"
      by auto
    from Cons.IH [OF k(1)] False k(2) show ?thesis
      by (auto simp: nth_Cons split: nat.splits)
  qed
qed

lemma findIndex_None: "findIndex P xs = None \<longleftrightarrow> (\<forall>x\<in>set xs. \<not> P x)"
  by (induction xs) auto

text \<open>
  Claim C1, as the code has it. When the update's registration already has a record (at
  index \<open>i\<close>, the first one with that registration), the merge of that update appends the
  update's position to the record's \<open>positions\<close>, sets the record's geometry (the current
  position) to the update's, and merges the update's properties over the record's: a field
  of the update takes the update's value, and a field that the update does not carry keeps
  the value it had. No other record changes.
\<close>

theorem merge_existing:
  assumes "feat_properties newDrone = Some newProperties"
      and "feat_geometry newDrone = Some newGeometry"
      and "findIndex (\<lambda>drone. registration_of (properties drone) = registration_of newProperties)
             updated = Some i"
  shows "\<exists>updated'. mergeDroneData_step updated newDrone = Inr updated' \<and>
           length updated' = length updated \<and>
           positions (updated' ! i) = positions (updated ! i) @ [coordinates newGeometry] \<and>
           geometry (updated' ! i) = newGeometry \<and>
           properties (updated' ! i) = properties (updated ! i) ++ newProperties \<and>
           (\<forall>k v. newProperties k = Some v \<longrightarrow> properties (updated' ! i) k = Some v) \<and>
           (\<forall>k. newProperties k = None \<longrightarrow>
                  properties (updated' ! i) k = properties (updated ! i) k) \<and>
           (\<forall>j<length updated. j \<noteq> i \<longrightarrow> updated' ! j = updated ! j)"
proof -
  have i: "i < length updated"
    using findIndex_Some [OF assms(3)] by simp
  show ?thesis
    using assms i by (simp add: mergeDroneData_step_def Let_def map_add_def)
qed

text \<open>
  Claim C1 as stated fails: after a first update for \<open>R1\<close> that carries a pilot and a second
  one that does not, the record still has the pilot of the first update.
\<close>

theorem merge_keeps_absent_field:
  "map_sum id (map (\<lambda>d. (properties d ''pilot'', positions d)))
     (mergeDroneData []
        \<lparr> features =
            [point_update [''registration'' \<mapsto> Str ''R1'', ''pilot'' \<mapsto> Str ''P''] (10, 20),
             point_update [''registration'' \<mapsto> Str ''R1''] (11, 21)] \<rparr>)
   = Inr [(Some (Str ''P''), [Some (10, 20), Some (11, 21)])]"
  by (simp add: mergeDroneData_def mergeDroneData_step_def point_update_def registration_of_def)

theorem merge_existing_witness:
  "\<exists>updated'. mergeDroneData_step [example_drone ''R1''] (point_update [''registration'' \<mapsto> Str ''R1''] (11, 21)) = Inr updated' \<and>
      positions (updated' ! 0) = [Some (0, 0), Some (11, 21)] \<and>
      coordinates (geometry (updated' ! 0)) = Some (11, 21) \<and>
      properties (updated' ! 0) = properties (example_drone ''R1'') ++ [''registration'' \<mapsto> Str ''R1'']"
  using merge_existing [of "point_update [''registration'' \<mapsto> Str ''R1''] (11, 21)"
      "[''registration'' \<mapsto> Str ''R1'']" "\<lparr> gtype = ''Point'', coordinates = Some (11, 21) \<rparr>"
      "[example_drone ''R1'']" 0]
  by (auto simp: point_update_def example_drone_def registration_of_def)

subsection \<open>Malformed updates\<close>

lemma error_unique: "(e :: error) = TypeError"
  by (cases e)

lemma step_TypeError_iff:
  "(mergeDroneData_step updated f = Inl TypeError) =
     (feat_properties f = None \<or> feat_geometry f = None)"
  by (simp add: mergeDroneData_step_def Let_def split: option.splits)

lemma step_error_iff:
  "(mergeDroneData_step updated f = Inl e) = (feat_properties f = None \<or> feat_geometry f = None)"
  using step_TypeError_iff [of updated f] error_unique [of e] by simp

lemma step_Inr:
  "feat_properties f \<noteq> None \<Longrightarrow> feat_geometry f \<noteq> None \<Longrightarrow> \<exists>u. mergeDroneData_step updated f = Inr u"
  using step_TypeError_iff [of updated f] error_unique
  by (cases "mergeDroneData_step updated f") auto

lemma forEach_error_iff:
  "(mergeDroneData_forEach updated fs = Inl e) =
     (\<exists>f\<in>set fs. feat_properties f = None \<or> feat_geometry f = None)"
proof (induction fs arbitrary: updated)
  case Nil
  then show ?case by simp
next
  case (Cons f fs)
  show ?case
  proof (cases "mergeDroneData_step updated f")
    case (Inl e')
    then have "feat_properties f = None \<or> feat_geometry f = None"
      using step_error_iff [of updated f e'] by simp
    moreover have "e' = e" by (cases e, cases e') simp
    ultimately show ?thesis using Inl by auto
  next
    case (Inr u)
    then have "\<not> (feat_properties f = None \<or> feat_geometry f = None)"
      using step_error_iff [of updated f] by auto
    then show ?thesis using Inr Cons.IH [of u] by auto
  qed
qed

lemma sum_list_map_update:
  "i < length xs \<Longrightarrow> sum_list (map f (xs[i := y])) + f (xs ! i) = sum_list (map f xs) + (f y :: nat)"
  by (induction xs arbitrary: i) (auto simp: nth_Cons split: nat.splits)

lemma step_history_size:
  assumes "mergeDroneData_step updated f = Inr u"
  shows "history_size u = Suc (history_size updated)"
proof -
  obtain p g where pg: "feat_properties f = Some p" "feat_geometry f = Some g"
    using step_error_iff [of updated f TypeError] assms by auto
  let ?P = "\<lambda>drone. registration_of (properties drone) = registration_of p"
  show ?thesis
  proof (cases "findIndex ?P updated")
    case None
    with assms pg show ?thesis
      by (auto simp: mergeDroneData_step_def history_size_def)
  next
    case (Some i)
    then have i: "i < length updated" using findIndex_Some by blast
    let ?d = "(updated ! i) \<lparr> positions := positions (updated ! i) @ [coordinates g],
                 geometry := g, properties := properties (updated ! i) ++ p \<rparr>"
    have u: "u = updated[i := ?d]"
      using assms pg Some by (simp add: mergeDroneData_step_def Let_def)
    show ?thesis
      unfolding u history_size_def
      using sum_list_map_update [OF i, of "\<lambda>d. length (positions d)" ?d] by simp
  qed
qed

lemma forEach_history_size:
  "mergeDroneData_forEach updated fs = Inr u \<Longrightarrow> history_size u = history_size updated + length fs"
proof (induction fs arbitrary: updated)
  case Nil
  then show ?case by simp
next
  case (Cons f fs)
  then show ?case
    by (cases "mergeDroneData_step updated f") (auto dest: step_history_size)
qed

lemma step_history_ok:
  assumes "mergeDroneData_step updated f = Inr u" and "\<forall>d\<in>set updated. history_ok d"
  shows "\<forall>d\<in>set u. history_ok d"
proof -
  obtain p g where pg: "feat_properties f = Some p" "feat_geometry f = Some g"
    using step_error_iff [of updated f TypeError] assms(1) by auto
  let ?P = "\<lambda>drone. registration_of (properties drone) = registration_of p"
  show ?thesis
  proof (cases "findIndex ?P updated")
    case None
    with assms pg show ?thesis
      by (auto simp: mergeDroneData_step_def history_ok_def)
  next
    case (Some i)
    let ?d = "(updated ! i) \<lparr> positions := positions (updated ! i) @ [coordinates g],
                 geometry := g, properties := properties (updated ! i) ++ p \<rparr>"
    have u: "u = updated[i := ?d]"
      using assms pg Some by (simp add: mergeDroneData_step_def Let_def)
    have "history_ok ?d" by (simp add: history_ok_def)
    then show ?thesis
      unfolding u using assms(2) by (auto dest!: set_update_subset_insert [THEN subsetD])
  qed
qed

lemma forEach_history_ok:
  "mergeDroneData_forEach updated fs = Inr u \<Longrightarrow> \<forall>d\<in>set updated. history_ok d \<Longrightarrow>
   \<forall>d\<in>set u. history_ok d"
proof (induction fs arbitrary: updated)
  case Nil
  then show ?case by simp
next
  case (Cons f fs)
  from Cons.prems(1) obtain v where v: "mergeDroneData_step updated f = Inr v"
    "mergeDroneData_forEach v fs = Inr u"
    by (auto split: sum.splits)
  from Cons.IH [OF v(2) step_history_ok [OF v(1) Cons.prems(2)]] show ?case .
qed

lemma step_creates:
  assumes "feat_properties f = Some p" and "feat_geometry f = Some g"
    and "findIndex (\<lambda>drone. registration_of (properties drone) = registration_of p) updated = None"
  shows "mergeDroneData_step updated f =
           Inr (updated @ [\<lparr> properties = p, geometry = g, positions = [coordinates g],
                              extra = feat_extra f \<rparr>])"
  using assms by (simp add: mergeDroneData_step_def)

lemma step_records:
  assumes "mergeDroneData_step updated f = Inr u"
      and "feat_properties f = Some p" and "feat_geometry f = Some g"
  shows "\<exists>d\<in>set u. registration_of (properties d) = registration_of p \<and>
                   coordinates g \<in> set (positions d)"
proof -
  let ?P = "\<lambda>drone. registration_of (properties drone) = registration_of p"
  show ?thesis
  proof (cases "findIndex ?P updated")
    case None
    with assms show ?thesis
      by (auto simp: mergeDroneData_step_def)
  next
    case (Some i)
    then have i: "i < length updated" "?P (updated ! i)"
      using findIndex_Some [OF Some] by simp_all
    let ?d = "(updated ! i) \<lparr> positions := positions (updated ! i) @ [coordinates g],
                 geometry := g, properties := properties (updated ! i) ++ p \<rparr>"
    have u: "u = updated[i := ?d]"
      using assms Some by (simp add: mergeDroneData_step_def Let_def)
    have "registration_of (properties ?d) = registration_of p"
      using i(2) by (simp add: registration_of_def map_add_def split: option.splits)
    moreover have "coordinates g \<in> set (positions ?d)" by simp
    moreover have "?d \<in> set u" unfolding u using i(1) by (rule set_update_memI)
    ultimately show ?thesis by blast
  qed
qed

lemma step_keeps:
  assumes "mergeDroneData_step updated f = Inr u" and "d \<in> set updated"
  shows "\<exists>d'\<in>set u. registration_of (properties d') = registration_of (properties d) \<and>
                    set (positions d) \<subseteq> set (positions d')"
proof -
  obtain p g where pg: "feat_properties f = Some p" "feat_geometry f = Some g"
    using step_error_iff [of updated f TypeError] assms(1) by auto
  let ?P = "\<lambda>drone. registration_of (properties drone) = registration_of p"
  show ?thesis
  proof (cases "findIndex ?P updated")
    case None
    with assms pg show ?thesis
      by (auto simp: mergeDroneData_step_def)
  next
    case (Some i)
    then have i: "i < length updated" "?P (updated ! i)"
      using findIndex_Some [OF Some] by simp_all
    let ?d = "(updated ! i) \<lparr> positions := positions (updated ! i) @ [coordinates g],
                 geometry := g, properties := properties (updated ! i) ++ p \<rparr>"
    have u: "u = updated[i := ?d]"
      using assms pg Some by (simp add: mergeDroneData_step_def Let_def)
    have reg: "registration_of (properties ?d) = registration_of (properties (updated ! i))"
      using i(2) by (simp add: registration_of_def map_add_def split: option.splits)
    from assms(2) obtain j where j: "j < length updated" "d = updated ! j"
      by (auto simp: in_set_conv_nth)
    show ?thesis
    proof (cases "j = i")
      case True
      have "?d \<in> set u" unfolding u using i(1) by (rule set_update_memI)
      moreover have "set (positions d) \<subseteq> set (positions ?d)" using j True by auto
      ultimately show ?thesis using reg j True by blast
    next
      case False
      then have "u ! j = d" unfolding u using j by simp
      moreover have "j < length u" unfolding u using j by simp
      ultimately have "d \<in> set u" using nth_mem by metis
      then show ?thesis by blast
    qed
  qed
qed

lemma forEach_keeps:
  "mergeDroneData_forEach updated fs = Inr u \<Longrightarrow> d \<in> set updated \<Longrightarrow>
   \<exists>d'\<in>set u. registration_of (properties d') = registration_of (properties d) \<and>
                  set (positions d) \<subseteq> set (positions d')"
proof (induction fs arbitrary: updated d)
  case Nil
  then show ?case by auto
next
  case (Cons x fs)
  from Cons.prems(1) obtain v where v: "mergeDroneData_step updated x = Inr v"
    "mergeDroneData_forEach v fs = Inr u"
    by (auto split: sum.splits)
  from step_keeps [OF v(1) Cons.prems(2)] obtain d1 where d1: "d1 \<in> set v"
    "registration_of (properties d1) = registration_of (properties d)"
    "set (positions d) \<subseteq> set (positions d1)"
    by blast
  from Cons.IH [OF v(2) d1(1)] obtain d2 where d2: "d2 \<in> set u"
    "registration_of (properties d2) = registration_of (properties d1)"
    "set (positions d1) \<subseteq> set (positions d2)"
    by blast
  show ?case using d1 d2 by auto
qed

lemma forEach_records:
  assumes "mergeDroneData_forEach updated fs = Inr u" and "f \<in> set fs"
      and "feat_properties f = Some p" and "feat_geometry f = Some g"
  shows "\<exists>d\<in>set u. registration_of (properties d) = registration_of p \<and>
                   coordinates g \<in> set (positions d)"
  using assms
proof (induction fs arbitrary: updated)
  case Nil
  then show ?case by simp
next
  case (Cons x fs)
  from Cons.prems(1) obtain v where v: "mergeDroneData_step updated x = Inr v"
    "mergeDroneData_forEach v fs = Inr u"
    by (auto split: sum.splits)
  show ?case
  proof (cases "f \<in> set fs")
    case True
    from Cons.IH [OF v(2) True Cons.prems(3,4)] show ?thesis .
  next
    case False
    then have "x = f" using Cons.prems(2) by simp
    then obtain d where d: "d \<in> set v" "registration_of (properties d) = registration_of p"
      "coordinates g \<in> set (positions d)"
      using step_records [OF v(1)] Cons.prems(3,4) by blast
    from forEach_keeps [OF v(2) d(1)] d(2,3) show ?thesis by auto
  qed
qed

text \<open>
  Claim C4, as the code has it. \<open>mergeDroneData\<close> validates nothing. It throws a TypeError
  exactly when some update of the batch has no properties or no geometry, and then no update
  of the batch reaches the store. Otherwise it returns, and every update of the batch is
  applied, none discarded: the store gains one position per update, and each update's
  position is in the history of a record with the update's registration, also when the
  registration or the coordinates are \<open>undefined\<close>.
\<close>

theorem merge_no_validation:
  "((mergeDroneData previousData newData = Inl TypeError) =
      (\<exists>f\<in>set (features newData). feat_properties f = None \<or> feat_geometry f = None)) \<and>
   (\<forall>s. mergeDroneData previousData newData = Inr s \<longrightarrow>
      history_size s = history_size previousData + length (features newData) \<and>
      (\<forall>f\<in>set (features newData). \<forall>p g.
          feat_properties f = Some p \<and> feat_geometry f = Some g \<longrightarrow>
          (\<exists>d\<in>set s. registration_of (properties d) = registration_of p \<and>
                       coordinates g \<in> set (positions d))))"
  unfolding mergeDroneData_def
  using forEach_error_iff [of previousData "features newData" TypeError]
    forEach_history_size [of previousData "features newData"]
    forEach_records [of previousData "features newData"]
  by blast

theorem merge_no_validation_witness:
  "mergeDroneData [] \<lparr> features = [no_registration_update, no_coordinates_update] \<rparr>
     \<noteq> Inl TypeError \<and>
   map_sum id (map (\<lambda>d. (registration_of (properties d), positions d)))
     (mergeDroneData [] \<lparr> features = [no_registration_update, no_coordinates_update] \<rparr>)
     = Inr [(None, [Some (1, 2)]), (Some (Str ''R1''), [None])]"
  using merge_no_validation
    [of "[]" "\<lparr> features = [no_registration_update, no_coordinates_update] \<rparr>"]
  by (simp add: mergeDroneData_def mergeDroneData_step_def no_registration_update_def
      no_coordinates_update_def point_update_def registration_of_def)

text \<open>
  Claim C4 as stated fails: a batch whose first update has no geometry and whose second
  update is well formed makes the merge throw, and the second update is not applied.
\<close>

theorem merge_malformed_throws:
  "mergeDroneData []
     \<lparr> features = [no_geometry_update, point_update [''registration'' \<mapsto> Str ''R2''] (1, 2)] \<rparr>
   = Inl TypeError"
  by (simp add: mergeDroneData_def mergeDroneData_step_def no_geometry_update_def
      registration_of_def)

subsection \<open>The history invariant\<close>

text \<open>
  Claim C7. In every store state reachable from the empty store by merges, every record
  has a non-empty \<open>positions\<close> whose last element is the coordinate of the record's
  geometry. The merge establishes this when it creates a record (\<open>step_creates\<close>: the
  history is the singleton of the current position) and every later merge keeps it
  (\<open>step_history_ok\<close>).
\<close>

theorem history_invariant:
  assumes "reachable s"
  shows "\<forall>d\<in>set s. positions d \<noteq> [] \<and> last (positions d) = coordinates (geometry d)"
proof -
  have "\<forall>d\<in>set s. history_ok d"
    using assms
  proof (induction rule: reachable.induct)
    case initial
    then show ?case by simp
  next
    case (merged s newData s')
    then show ?case
      unfolding mergeDroneData_def by (blast intro: forEach_history_ok [rule_format])
  qed
  then show ?thesis by (simp add: history_ok_def)
qed

theorem history_invariant_witness:
  "reachable [first_record] \<and> positions first_record \<noteq> [] \<and>
   last (positions first_record) = coordinates (geometry first_record)"
proof -
  have m: "mergeDroneData [] \<lparr> features = [point_update [''registration'' \<mapsto> Str ''R1''] (10, 20)] \<rparr>
             = Inr [first_record]"
    by (simp add: mergeDroneData_def mergeDroneData_step_def point_update_def first_record_def)
  have r: "reachable [first_record]"
    by (rule reachable.merged [OF reachable.initial m])
  show ?thesis using r history_invariant [OF r] by simp
qed

section \<open>Properties of the double arithmetic\<close>

lemma rounding_id: "rounding (\<lambda>x. x)"
  by (simp add: rounding_def)

lemma MAX_VALUE_ge: "2 ^ 1023 \<le> MAX_VALUE"
  by (simp add: MAX_VALUE_def)

lemma pow_le_MAX: "k \<le> 1023 \<Longrightarrow> (2::real) ^ k \<le> MAX_VALUE"
proof -
  assume "k \<le> 1023"
  then have "(2::real) ^ k \<le> 2 ^ 1023"
    by (intro power_increasing) simp_all
  with MAX_VALUE_ge show ?thesis by linarith
qed

lemma rounding_abs_le:
  assumes "rounding rnd" and "\<bar>x\<bar> \<le> 2 ^ k"
  shows "\<bar>rnd x\<bar> \<le> 2 ^ k"
proof -
  have m: "\<And>a b. a \<le> b \<Longrightarrow> rnd a \<le> rnd b"
    using assms(1) by (simp add: rounding_def)
  have "rnd x \<le> rnd (2 ^ k)" and "rnd (- (2 ^ k)) \<le> rnd x"
    using assms(2) by (auto intro!: m)
  then show ?thesis
    using assms(1) by (simp add: rounding_def abs_le_iff)
qed

lemma rounding_nonneg: "rounding rnd \<Longrightarrow> 0 \<le> x \<Longrightarrow> 0 \<le> rnd x"
  unfolding rounding_def by (metis)

lemma to_double_bounded:
  assumes "rounding rnd" and "\<bar>x\<bar> \<le> 2 ^ k" and "k \<le> 1023"
  shows "to_double rnd x = Fin (rnd x) \<and> \<bar>rnd x\<bar> \<le> 2 ^ k"
proof -
  have b: "\<bar>rnd x\<bar> \<le> 2 ^ k"
    using assms(1,2) by (rule rounding_abs_le)
  then have "\<bar>rnd x\<bar> \<le> MAX_VALUE"
    using pow_le_MAX [OF assms(3)] by linarith
  then show ?thesis
    using b by (simp add: to_double_def Let_def abs_le_iff)
qed

lemma to_double_exact: "is_double rnd (Fin x) \<Longrightarrow> to_double rnd x = Fin x"
  by (simp add: to_double_def Let_def abs_le_iff)

lemma to_double_0: "rounding rnd \<Longrightarrow> to_double rnd 0 = Fin 0"
  using to_double_bounded [of rnd 0 0] by (simp add: rounding_def)

lemma to_double_1: "rounding rnd \<Longrightarrow> to_double rnd 1 = Fin 1"
proof -
  assume r: "rounding rnd"
  then have "rnd (2 ^ 0) = 2 ^ 0" unfolding rounding_def by blast
  then have "rnd 1 = 1" by simp
  then show ?thesis using to_double_bounded [OF r, of 1 0] by simp
qed

lemma to_double_2: "rounding rnd \<Longrightarrow> to_double rnd 2 = Fin 2"
proof -
  assume r: "rounding rnd"
  then have "rnd (2 ^ 1) = 2 ^ 1" unfolding rounding_def by blast
  then have "rnd 2 = 2" by simp
  then show ?thesis using to_double_bounded [OF r, of 2 1] by simp
qed

section \<open>Properties of the curve smoother\<close>

lemma inner_loop_eq:
  "inner_loop rnd i s e cx cy t acc =
     acc @ map (bezier_point rnd s e cx cy) (filter (\<lambda>t. t > 0 \<or> i = 0) [t..<Suc CURVE_STEPS])"
proof (induction rnd i s e cx cy t acc rule: inner_loop.induct)
  case (1 rnd i s e cx cy t acc)
  show ?case
  proof (cases "t \<le> CURVE_STEPS")
    case True
    then have up: "[t..<Suc CURVE_STEPS] = t # [Suc t..<Suc CURVE_STEPS]"
      by (simp add: upt_conv_Cons)
    show ?thesis
      using True "1.IH" [OF True] up
      by (subst inner_loop.simps) simp
  next
    case False
    then show ?thesis
      by (subst inner_loop.simps) simp
  qed
qed

lemma outer_loop_eq:
  "outer_loop rnd cs i acc = acc @ concat (map (segment_samples rnd cs) [i..<length cs - 1])"
proof (induction rnd cs i acc rule: outer_loop.induct)
  case (1 rnd cs i acc)
  show ?case
  proof (cases "i < length cs - 1")
    case True
    obtain cx cy where c: "control_point rnd (cs ! i) (cs ! (i + 1)) = (cx, cy)"
      by (cases "control_point rnd (cs ! i) (cs ! (i + 1))")
    have up: "[i..<length cs - 1] = i # [Suc i..<length cs - 1]"
      using True by (simp add: upt_conv_Cons)
    have seg: "segment_samples rnd cs i =
        map (bezier_point rnd (cs ! i) (cs ! (i + 1)) cx cy)
          (filter (\<lambda>t. t > 0 \<or> i = 0) [0..<Suc CURVE_STEPS])"
      unfolding segment_samples_def c fst_conv snd_conv by (rule refl)
    have unf: "concat (map (segment_samples rnd cs) [i..<length cs - 1]) =
        segment_samples rnd cs i @ concat (map (segment_samples rnd cs) [Suc i..<length cs - 1])"
      by (simp only: up list.map concat.simps)
    have il: "inner_loop rnd i (cs ! i) (cs ! (i + 1)) cx cy 0 acc = acc @ segment_samples rnd cs i"
      by (simp only: inner_loop_eq seg)
    have "outer_loop rnd cs i acc =
        outer_loop rnd cs (i + 1) (inner_loop rnd i (cs ! i) (cs ! (i + 1)) cx cy 0 acc)"
      using True c by (subst outer_loop.simps) simp
    also have "\<dots> = inner_loop rnd i (cs ! i) (cs ! (i + 1)) cx cy 0 acc @
        concat (map (segment_samples rnd cs) [i + 1..<length cs - 1])"
      by (rule "1.IH" [OF True refl refl c [symmetric] refl])
    also have "\<dots> = acc @ concat (map (segment_samples rnd cs) [i..<length cs - 1])"
      by (simp only: il unf append_assoc Suc_eq_plus1)
    finally show ?thesis .
  next
    case False
    then show ?thesis
      by (subst outer_loop.simps) simp
  qed
qed

lemma createCurvedPath_eq:
  "2 \<le> length cs \<Longrightarrow>
   createCurvedPath rnd cs =
     cs ! 0 # concat (map (segment_samples rnd cs) [0..<length cs - 1])"
  by (simp add: createCurvedPath_def outer_loop_eq)

lemma bezier_point_first:
  assumes r: "rounding rnd" and s: "double_point rnd s" and e: "finite_point e"
      and c: "is_finite cx" "is_finite cy"
  shows "bezier_point rnd s e cx cy 0 = s"
proof -
  obtain sx sy where [simp]: "s = (Fin sx, Fin sy)"
    using s by (cases s; cases "fst s"; cases "snd s") (auto simp: double_point_def)
  obtain ex ey where [simp]: "e = (Fin ex, Fin ey)"
    using e by (cases e; cases "fst e"; cases "snd e") (auto simp: finite_point_def)
  obtain x y where [simp]: "cx = Fin x" "cy = Fin y"
    using c by (cases cx; cases cy) auto
  have d: "to_double rnd sx = Fin sx" "to_double rnd sy = Fin sy"
    using s by (simp_all add: double_point_def to_double_exact)
  show ?thesis
    by (simp add: bezier_point_def CURVE_STEPS_def js_sub_def to_double_0 [OF r]
        to_double_1 [OF r] to_double_2 [OF r] d)
qed

lemma bezier_point_last:
  assumes r: "rounding rnd" and s: "finite_point s" and e: "double_point rnd e"
      and c: "is_finite cx" "is_finite cy"
  shows "bezier_point rnd s e cx cy CURVE_STEPS = e"
proof -
  obtain sx sy where [simp]: "s = (Fin sx, Fin sy)"
    using s by (cases s; cases "fst s"; cases "snd s") (auto simp: finite_point_def)
  obtain ex ey where [simp]: "e = (Fin ex, Fin ey)"
    using e by (cases e; cases "fst e"; cases "snd e") (auto simp: double_point_def)
  obtain x y where [simp]: "cx = Fin x" "cy = Fin y"
    using c by (cases cx; cases cy) auto
  have d: "to_double rnd ex = Fin ex" "to_double rnd ey = Fin ey"
    using e by (simp_all add: double_point_def to_double_exact)
  show ?thesis
    by (simp add: bezier_point_def CURVE_STEPS_def js_sub_def to_double_0 [OF r]
        to_double_1 [OF r] d)
qed

lemma bounded_Fin: "bounded k v \<Longrightarrow> \<exists>x. v = Fin x \<and> \<bar>x\<bar> \<le> 2 ^ k"
  by (cases v) auto

lemma bounded_mono:
  assumes "bounded j v" and "j \<le> k"
  shows "bounded k v"
proof -
  obtain x where x: "v = Fin x" "\<bar>x\<bar> \<le> 2 ^ j"
    using bounded_Fin [OF assms(1)] by blast
  have "(2::real) ^ j \<le> 2 ^ k"
    using assms(2) by (intro power_increasing) simp_all
  then have "\<bar>x\<bar> \<le> 2 ^ k" using x(2) by linarith
  then show ?thesis by (simp add: x(1))
qed

lemma bounded_finite: "bounded k v \<Longrightarrow> is_finite v"
  by (cases v) auto

lemma bounded_neg: "bounded k v \<Longrightarrow> bounded k (js_neg v)"
  by (cases v) auto

lemma bounded_add:
  assumes r: "rounding rnd" and a: "bounded k a" and b: "bounded k b" and k: "k < 1023"
  shows "bounded (Suc k) (js_add rnd a b)"
proof -
  obtain x y where xy: "a = Fin x" "\<bar>x\<bar> \<le> 2 ^ k" "b = Fin y" "\<bar>y\<bar> \<le> 2 ^ k"
    using bounded_Fin [OF a] bounded_Fin [OF b] by blast
  have "\<bar>x + y\<bar> \<le> 2 ^ Suc k" using xy by simp
  from to_double_bounded [OF r this] k show ?thesis
    by (simp add: xy)
qed

lemma bounded_sub:
  "rounding rnd \<Longrightarrow> bounded k a \<Longrightarrow> bounded k b \<Longrightarrow> k < 1023 \<Longrightarrow>
   bounded (Suc k) (js_sub rnd a b)"
  unfolding js_sub_def by (rule bounded_add) (auto intro: bounded_neg)

lemma bounded_mul:
  assumes r: "rounding rnd" and a: "bounded j a" and b: "bounded k b" and k: "j + k \<le> 1023"
  shows "bounded (j + k) (js_mul rnd a b)"
proof -
  obtain x y where xy: "a = Fin x" "\<bar>x\<bar> \<le> 2 ^ j" "b = Fin y" "\<bar>y\<bar> \<le> 2 ^ k"
    using bounded_Fin [OF a] bounded_Fin [OF b] by blast
  have "\<bar>x\<bar> * \<bar>y\<bar> \<le> 2 ^ j * 2 ^ k"
    using xy by (intro mult_mono) simp_all
  then have "\<bar>x * y\<bar> \<le> 2 ^ (j + k)"
    by (simp add: abs_mult power_add)
  from to_double_bounded [OF r this k] show ?thesis
    by (simp add: xy)
qed

lemma bounded_half:
  assumes r: "rounding rnd" and a: "bounded k a" and k: "k \<le> 1023"
  shows "bounded k (js_div rnd a (Fin 2))"
proof -
  obtain x where x: "a = Fin x" "\<bar>x\<bar> \<le> 2 ^ k"
    using bounded_Fin [OF a] by blast
  have "\<bar>x / 2\<bar> \<le> 2 ^ k" using x by simp
  from to_double_bounded [OF r this k] show ?thesis
    by (simp add: x)
qed

lemma bounded_min: "bounded k a \<Longrightarrow> bounded k b \<Longrightarrow> bounded k (js_min a b)"
  by (cases a; cases b) (auto simp: min_def)

lemma bounded_distance:
  assumes r: "rounding rnd" and a: "bounded k dx" and b: "bounded k dy"
      and k: "Suc (k + k) \<le> 1023"
  shows "bounded (Suc k)
           (js_sqrt rnd (js_add rnd (js_mul rnd dx dx) (js_mul rnd dy dy)))"
proof -
  obtain x y where xy: "dx = Fin x" "\<bar>x\<bar> \<le> 2 ^ k" "dy = Fin y" "\<bar>y\<bar> \<le> 2 ^ k"
    using bounded_Fin [OF a] bounded_Fin [OF b] by blast
  have sq: "\<bar>z * z\<bar> \<le> 2 ^ (k + k)" if "\<bar>z\<bar> \<le> 2 ^ k" for z :: real
  proof -
    have "\<bar>z\<bar> * \<bar>z\<bar> \<le> 2 ^ k * 2 ^ k" using that by (intro mult_mono) simp_all
    then show ?thesis by (simp add: abs_mult power_add)
  qed
  have kk: "k + k \<le> 1023" using k by simp
  have x2: "to_double rnd (x * x) = Fin (rnd (x * x))" "\<bar>rnd (x * x)\<bar> \<le> 2 ^ (k + k)"
    using to_double_bounded [OF r sq [OF xy(2)] kk] by simp_all
  have y2: "to_double rnd (y * y) = Fin (rnd (y * y))" "\<bar>rnd (y * y)\<bar> \<le> 2 ^ (k + k)"
    using to_double_bounded [OF r sq [OF xy(4)] kk] by simp_all
  have nn: "0 \<le> rnd (x * x)" "0 \<le> rnd (y * y)"
    using rounding_nonneg [OF r] by simp_all
  define s where "s = rnd (x * x) + rnd (y * y)"
  have sb: "\<bar>s\<bar> \<le> 2 ^ Suc (k + k)" using x2(2) y2(2) by (simp add: s_def)
  have s: "to_double rnd s = Fin (rnd s)" "\<bar>rnd s\<bar> \<le> 2 ^ Suc (k + k)"
    using to_double_bounded [OF r sb k] by simp_all
  have sn: "0 \<le> rnd s" using rounding_nonneg [OF r] nn by (simp add: s_def)
  have "(2::real) ^ Suc (k + k) \<le> 2 ^ (Suc k + Suc k)"
    by (intro power_increasing) simp_all
  also have "\<dots> = (2 ^ Suc k)\<^sup>2"
    by (simp only: power2_eq_square power_add)
  finally have "rnd s \<le> (2 ^ Suc k)\<^sup>2" using s(2) by linarith
  then have le: "sqrt (rnd s) \<le> sqrt ((2 ^ Suc k)\<^sup>2)"
    by (simp only: real_sqrt_le_iff)
  have "sqrt (((2::real) ^ Suc k)\<^sup>2) = 2 ^ Suc k"
    by (subst real_sqrt_abs) simp
  then have "sqrt (rnd s) \<le> 2 ^ Suc k"
    using le by (simp only:)
  then have "\<bar>sqrt (rnd s)\<bar> \<le> 2 ^ Suc k"
    using sn by simp
  moreover have "Suc k \<le> 1023" using k by simp
  ultimately have "to_double rnd (sqrt (rnd s)) = Fin (rnd (sqrt (rnd s)))"
    "\<bar>rnd (sqrt (rnd s))\<bar> \<le> 2 ^ Suc k"
    using to_double_bounded [OF r] by blast+
  then show ?thesis
    using sn s(1) by (simp add: xy x2 y2 s_def [symmetric])
qed

lemma bounded_const: "rounding rnd \<Longrightarrow> \<bar>c\<bar> \<le> 1 \<Longrightarrow> bounded 0 (Fin (rnd c))"
  using rounding_abs_le [of rnd c 0] by simp

lemma control_point_bounded:
  assumes r: "rounding rnd" and s: "bounded_point k s" and e: "bounded_point k e"
      and k: "k + k + 4 \<le> 1023"
  shows "bounded_point (k + k + 4) (control_point rnd s e)"
proof -
  define midLat where "midLat = js_div rnd (js_add rnd (snd s) (snd e)) (Fin 2)"
  define midLng where "midLng = js_div rnd (js_add rnd (fst s) (fst e)) (Fin 2)"
  define dx where "dx = js_sub rnd (fst e) (fst s)"
  define dy where "dy = js_sub rnd (snd e) (snd s)"
  define distance where
    "distance = js_sqrt rnd (js_add rnd (js_mul rnd dx dx) (js_mul rnd dy dy))"
  define curveOffset where
    "curveOffset = js_min (js_mul rnd distance (CURVE_OFFSET_FACTOR rnd)) (MAX_CURVE_OFFSET rnd)"
  have c: "control_point rnd s e =
      (js_sub rnd midLng (js_mul rnd dy curveOffset),
       js_add rnd midLat (js_mul rnd dx curveOffset))"
    by (simp add: control_point_def Let_def midLat_def midLng_def dx_def dy_def
        distance_def curveOffset_def)
  have b: "bounded k (fst s)" "bounded k (snd s)" "bounded k (fst e)" "bounded k (snd e)"
    using s e by (simp_all add: bounded_point_def)
  have k1: "k < 1023" "Suc k \<le> 1023" "Suc (Suc k + Suc k) \<le> 1023" "Suc (Suc k) + 0 \<le> 1023"
    "Suc k + Suc (Suc k) \<le> 1023" "Suc k + Suc (Suc k) < 1023"
    using k by simp_all
  have mid: "bounded (Suc k) midLat" "bounded (Suc k) midLng"
    unfolding midLat_def midLng_def
    by (rule bounded_half [OF r bounded_add [OF r _ _ k1(1)] k1(2)], fact b, fact b)+
  have d: "bounded (Suc k) dx" "bounded (Suc k) dy"
    unfolding dx_def dy_def
    by (rule bounded_sub [OF r _ _ k1(1)], fact b, fact b)+
  have dist: "bounded (Suc (Suc k)) distance"
    unfolding distance_def by (rule bounded_distance [OF r d k1(3)])
  have f: "bounded 0 (CURVE_OFFSET_FACTOR rnd)" "bounded 0 (MAX_CURVE_OFFSET rnd)"
    unfolding CURVE_OFFSET_FACTOR_def MAX_CURVE_OFFSET_def
    by (rule bounded_const [OF r], simp)+
  have "bounded (Suc (Suc k) + 0) (js_mul rnd distance (CURVE_OFFSET_FACTOR rnd))"
    by (rule bounded_mul [OF r dist f(1) k1(4)])
  then have off: "bounded (Suc (Suc k)) curveOffset"
    unfolding curveOffset_def
    by (intro bounded_min) (simp_all add: bounded_mono [OF f(2)])
  have p: "bounded (Suc k + Suc (Suc k)) (js_mul rnd dy curveOffset)"
    "bounded (Suc k + Suc (Suc k)) (js_mul rnd dx curveOffset)"
    by (rule bounded_mul [OF r _ off k1(5)], fact d)+
  have m: "bounded (Suc k + Suc (Suc k)) midLat" "bounded (Suc k + Suc (Suc k)) midLng"
    by (rule bounded_mono, fact mid, simp)+
  have lng: "bounded (Suc (Suc k + Suc (Suc k))) (js_sub rnd midLng (js_mul rnd dy curveOffset))"
    by (rule bounded_sub [OF r m(2) p(1) k1(6)])
  have lat: "bounded (Suc (Suc k + Suc (Suc k))) (js_add rnd midLat (js_mul rnd dx curveOffset))"
    by (rule bounded_add [OF r m(1) p(2) k1(6)])
  have eq: "k + k + 4 = Suc (Suc k + Suc (Suc k))" by simp
  show ?thesis
    unfolding eq c bounded_point_def fst_conv snd_conv
    using lng lat by (rule conjI)
qed

lemma double_point_finite: "double_point rnd p \<Longrightarrow> finite_point p"
  by (cases p; cases "fst p"; cases "snd p") (auto simp: double_point_def finite_point_def)

lemma bounded_point_finite: "bounded_point k p \<Longrightarrow> finite_point p"
  using bounded_finite by (auto simp: bounded_point_def finite_point_def)

lemma segment_samples_last_sample:
  "\<exists>ys. segment_samples rnd cs i =
          ys @ [bezier_point rnd (cs ! i) (cs ! (i + 1))
                  (fst (control_point rnd (cs ! i) (cs ! (i + 1))))
                  (snd (control_point rnd (cs ! i) (cs ! (i + 1)))) CURVE_STEPS]"
proof -
  have pos: "0 < CURVE_STEPS"
    by (simp add: CURVE_STEPS_def)
  then have "filter (\<lambda>t. t > 0 \<or> i = 0) [0..<Suc CURVE_STEPS] =
          filter (\<lambda>t. t > 0 \<or> i = 0) [0..<CURVE_STEPS] @ [CURVE_STEPS]"
    by simp
  then show ?thesis
    by (simp add: segment_samples_def)
qed

lemma segment_samples_first_sample:
  "\<exists>ys. segment_samples rnd cs 0 =
          bezier_point rnd (cs ! 0) (cs ! 1)
            (fst (control_point rnd (cs ! 0) (cs ! 1)))
            (snd (control_point rnd (cs ! 0) (cs ! 1))) 0 # ys"
proof -
  have "[0..<Suc CURVE_STEPS] = 0 # [Suc 0..<Suc CURVE_STEPS]"
    by (rule upt_conv_Cons) simp
  then show ?thesis
    by (simp add: segment_samples_def del: upt_Suc)
qed

lemma smoothed_last_sample:
  assumes "length cs = Suc (Suc m)"
  shows "last (createCurvedPath rnd cs) =
           bezier_point rnd (cs ! m) (cs ! (m + 1))
             (fst (control_point rnd (cs ! m) (cs ! (m + 1))))
             (snd (control_point rnd (cs ! m) (cs ! (m + 1)))) CURVE_STEPS"
proof -
  have l: "2 \<le> length cs" using assms by simp
  obtain ys where ys: "segment_samples rnd cs m =
      ys @ [bezier_point rnd (cs ! m) (cs ! (m + 1))
              (fst (control_point rnd (cs ! m) (cs ! (m + 1))))
              (snd (control_point rnd (cs ! m) (cs ! (m + 1)))) CURVE_STEPS]"
    using segment_samples_last_sample by blast
  have "concat (map (segment_samples rnd cs) [0..<length cs - 1]) =
          concat (map (segment_samples rnd cs) [0..<m]) @ segment_samples rnd cs m"
    by (simp add: assms)
  then show ?thesis
    by (simp add: createCurvedPath_eq [OF l] ys)
qed

lemma smoothed_last:
  assumes r: "rounding rnd" and l: "2 \<le> length cs"
      and d: "\<forall>p\<in>set cs. double_point rnd p"
      and c: "finite_point (control_point rnd (cs ! (length cs - 2)) (last cs))"
  shows "last (createCurvedPath rnd cs) = last cs"
proof -
  from l obtain m where m: "length cs = Suc (Suc m)"
    by (cases cs; cases "tl cs") auto
  have lst: "last cs = cs ! (m + 1)"
    using m by (cases cs) (auto simp: last_conv_nth)
  have "cs ! m \<in> set cs" "cs ! (m + 1) \<in> set cs"
    using m by simp_all
  then have p: "finite_point (cs ! m)" "double_point rnd (cs ! (m + 1))"
    using d double_point_finite by blast+
  have c': "finite_point (control_point rnd (cs ! m) (cs ! (m + 1)))"
    using c by (simp add: m lst)
  show ?thesis
    unfolding smoothed_last_sample [OF m] lst
    using c' by (intro bezier_point_last [OF r p]) (simp_all add: finite_point_def)
qed

lemma smoothed_first_twice:
  assumes r: "rounding rnd" and l: "2 \<le> length cs"
      and d: "double_point rnd (cs ! 0)" "finite_point (cs ! 1)"
      and c: "finite_point (control_point rnd (cs ! 0) (cs ! 1))"
  shows "take 2 (createCurvedPath rnd cs) = [cs ! 0, cs ! 0]"
proof -
  from l obtain m where m: "length cs = Suc (Suc m)"
    by (cases cs; cases "tl cs") auto
  obtain ys where ys: "segment_samples rnd cs 0 =
      bezier_point rnd (cs ! 0) (cs ! 1)
        (fst (control_point rnd (cs ! 0) (cs ! 1)))
        (snd (control_point rnd (cs ! 0) (cs ! 1))) 0 # ys"
    using segment_samples_first_sample by blast
  have b: "bezier_point rnd (cs ! 0) (cs ! 1)
        (fst (control_point rnd (cs ! 0) (cs ! 1)))
        (snd (control_point rnd (cs ! 0) (cs ! 1))) 0 = cs ! 0"
    using c by (intro bezier_point_first [OF r d]) (simp_all add: finite_point_def)
  have "[0..<Suc m] = 0 # [Suc 0..<Suc m]"
    by (rule upt_conv_Cons) simp
  then have "concat (map (segment_samples rnd cs) [0..<length cs - 1]) =
          cs ! 0 # ys @ concat (map (segment_samples rnd cs) [Suc 0..<Suc m])"
    using ys b by (simp add: m del: upt_Suc)
  then show ?thesis
    by (simp add: createCurvedPath_eq [OF l] numeral_2_eq_2)
qed

lemma take_two_Cons: "take 2 xs = [a, b] \<Longrightarrow> \<exists>zs. xs = a # b # zs"
  by (cases xs; cases "tl xs") (auto simp: numeral_2_eq_2)

text \<open>
  Claim C5, as the code has it. For every coordinate sequence of at least two points with
  finite coordinates, and whatever the rounding, the output of \<open>createCurvedPath\<close> is not
  empty and its first element is the first input point. Its last element is the last input
  point whenever the control point of the last segment is finite, that is, when computing
  it did not overflow; this is so when every coordinate has magnitude at most
  \<open>2 ^ SAFE_EXPONENT\<close>.
\<close>

theorem smoother_endpoints:
  assumes "rounding rnd" and "2 \<le> length coords"
      and "\<forall>p\<in>set coords. double_point rnd p"
  shows "createCurvedPath rnd coords \<noteq> [] \<and>
         hd (createCurvedPath rnd coords) = hd coords \<and>
         (finite_point (control_point rnd (coords ! (length coords - 2)) (last coords)) \<longrightarrow>
            last (createCurvedPath rnd coords) = last coords) \<and>
         ((\<forall>p\<in>set coords. bounded_point SAFE_EXPONENT p) \<longrightarrow>
            last (createCurvedPath rnd coords) = last coords)"
proof -
  have h: "hd coords = coords ! 0"
    using assms(2) by (cases coords) auto
  have fin: "last (createCurvedPath rnd coords) = last coords"
    if "finite_point (control_point rnd (coords ! (length coords - 2)) (last coords))"
    using smoothed_last [OF assms that] .
  have bnd: "finite_point (control_point rnd (coords ! (length coords - 2)) (last coords))"
    if b: "\<forall>p\<in>set coords. bounded_point SAFE_EXPONENT p"
  proof -
    have "coords \<noteq> []" using assms(2) by auto
    then have "coords ! (length coords - 2) \<in> set coords" "last coords \<in> set coords"
      using assms(2) by (auto intro!: nth_mem)
    then have p: "bounded_point SAFE_EXPONENT (coords ! (length coords - 2))"
      "bounded_point SAFE_EXPONENT (last coords)"
      using b by blast+
    have "SAFE_EXPONENT + SAFE_EXPONENT + 4 \<le> 1023"
      by (simp add: SAFE_EXPONENT_def)
    from control_point_bounded [OF assms(1) p this] show ?thesis
      by (rule bounded_point_finite)
  qed
  show ?thesis
    using h fin bnd by (simp add: createCurvedPath_eq [OF assms(2)])
qed

theorem smoother_endpoints_witness:
  "createCurvedPath (\<lambda>x. x) [(Fin 0, Fin 0), (Fin 3, Fin 4), (Fin 5, Fin 5)] \<noteq> [] \<and>
   hd (createCurvedPath (\<lambda>x. x) [(Fin 0, Fin 0), (Fin 3, Fin 4), (Fin 5, Fin 5)]) =
     (Fin 0, Fin 0) \<and>
   last (createCurvedPath (\<lambda>x. x) [(Fin 0, Fin 0), (Fin 3, Fin 4), (Fin 5, Fin 5)]) =
     (Fin 5, Fin 5)"
  using smoother_endpoints [of "\<lambda>x. x" "[(Fin 0, Fin 0), (Fin 3, Fin 4), (Fin 5, Fin 5)]"]
  by (simp add: rounding_id double_point_def bounded_point_def MAX_VALUE_def SAFE_EXPONENT_def)

lemma overflow_control:
  "control_point (\<lambda>x. x) overflow_start overflow_end = (PosInf, PosInf)"
  by (simp add: control_point_def Let_def js_sub_def to_double_def MAX_VALUE_def
      CURVE_OFFSET_FACTOR_def MAX_CURVE_OFFSET_def overflow_start_def overflow_end_def)

lemma overflow_sample:
  "bezier_point (\<lambda>x. x) overflow_start overflow_end PosInf PosInf CURVE_STEPS = (NaN, NaN)"
  by (simp add: bezier_point_def Let_def CURVE_STEPS_def js_sub_def to_double_def
      MAX_VALUE_def overflow_start_def overflow_end_def)

text \<open>The overflow does not depend on the rounding.\<close>

lemma to_double_overflow:
  assumes r: "rounding rnd" and x: "2 ^ 1024 \<le> x"
  shows "to_double rnd x = PosInf"
proof -
  have "rnd (2 ^ 1024) \<le> rnd x"
    using r x unfolding rounding_def by blast
  moreover have "rnd (2 ^ 1024) = 2 ^ 1024"
    using r unfolding rounding_def by blast
  moreover have "MAX_VALUE < 2 ^ 1024"
    by (simp add: MAX_VALUE_def)
  ultimately have "MAX_VALUE < rnd x" by linarith
  then show ?thesis by (simp add: to_double_def)
qed

lemma to_double_pow: "rounding rnd \<Longrightarrow> k \<le> 1023 \<Longrightarrow> to_double rnd (2 ^ k) = Fin (2 ^ k)"
proof -
  assume r: "rounding rnd" and k: "k \<le> 1023"
  have "rnd (2 ^ k) = 2 ^ k" using r unfolding rounding_def by blast
  then show ?thesis using to_double_bounded [OF r, of "2 ^ k" k] k by simp
qed

lemma overflow_control_any:
  assumes r: "rounding rnd"
  shows "\<not> finite_point (control_point rnd overflow_start overflow_end) \<and>
         \<not> is_finite (fst (control_point rnd overflow_start overflow_end)) \<and>
         \<not> is_finite (snd (control_point rnd overflow_start overflow_end))"
proof -
  have sum: "js_add rnd (Fin (2 ^ 1023)) (Fin (3 * 2 ^ 1022)) = PosInf"
    using to_double_overflow [OF r, of "2 ^ 1023 + 3 * 2 ^ 1022"] by simp
  have "(3::real) * 2 ^ 1022 + - (2 ^ 1023) = 2 ^ 1022" by simp
  then have d: "js_sub rnd (Fin (3 * 2 ^ 1022)) (Fin (2 ^ 1023)) = Fin (2 ^ 1022)"
    using to_double_pow [OF r, of 1022] by (simp only: js_sub_def js_neg.simps js_add.simps)
  have "(2::real) ^ 1022 * 2 ^ 1022 = 2 ^ 2044" by simp
  then have sq: "js_mul rnd (Fin (2 ^ 1022)) (Fin (2 ^ 1022)) = PosInf"
    using to_double_overflow [OF r, of "2 ^ 2044"] by (simp only: js_mul.simps) simp
  define off where "off = js_min (js_mul rnd PosInf (CURVE_OFFSET_FACTOR rnd)) (MAX_CURVE_OFFSET rnd)"
  have c: "control_point rnd overflow_start overflow_end =
      (js_sub rnd PosInf (js_mul rnd (Fin (2 ^ 1022)) off),
       js_add rnd PosInf (js_mul rnd (Fin (2 ^ 1022)) off))"
    unfolding control_point_def Let_def overflow_start_def overflow_end_def fst_conv snd_conv
      sum d sq off_def
    by (simp only: js_div.simps js_add.simps js_sqrt.simps) simp
  have m: "\<bar>rnd (1 / 100)\<bar> \<le> 2 ^ 0"
    by (rule rounding_abs_le [OF r]) simp
  have f: "0 \<le> rnd (3 / 10)"
    by (rule rounding_nonneg [OF r]) simp
  have off: "off = NaN \<or> (\<exists>w. off = Fin w \<and> \<bar>w\<bar> \<le> 1)"
    using m f unfolding off_def CURVE_OFFSET_FACTOR_def MAX_CURVE_OFFSET_def
    by (auto simp: min_def)
  show ?thesis
  proof (cases "off = NaN")
    case True
    then show ?thesis by (simp add: c finite_point_def js_sub_def)
  next
    case False
    then obtain w where w: "off = Fin w" "\<bar>w\<bar> \<le> 1" using off by blast
    have "\<bar>2 ^ 1022 * w\<bar> \<le> 2 ^ 1022"
      using w(2) by (simp add: abs_mult)
    from to_double_bounded [OF r this]
    have "js_mul rnd (Fin (2 ^ 1022)) off = Fin (rnd (2 ^ 1022 * w))"
      by (simp only: w js_mul.simps)
    then show ?thesis by (simp add: c finite_point_def js_sub_def)
  qed
qed


lemma overflow_sample_any:
  assumes r: "rounding rnd" and c: "\<not> is_finite cx" "\<not> is_finite cy"
  shows "bezier_point rnd overflow_start overflow_end cx cy CURVE_STEPS = (NaN, NaN)"
proof -
  have z: "js_mul rnd (Fin 0) cx = NaN" "js_mul rnd (Fin 0) cy = NaN"
    using c by (cases cx; cases cy; simp)+
  show ?thesis
    by (simp add: bezier_point_def CURVE_STEPS_def js_sub_def to_double_0 [OF r]
        to_double_1 [OF r] z overflow_start_def overflow_end_def)
qed

lemma overflow_any_rounding:
  assumes "rounding rnd"
  shows "last (createCurvedPath rnd [overflow_start, overflow_end]) = (NaN, NaN)"
  using overflow_control_any [OF assms]
  by (subst smoothed_last_sample [of _ 0]) (simp_all add: overflow_sample_any [OF assms])

text \<open>
  Claim C5 as stated fails: for the finite coordinates of \<open>overflow_start\<close> and
  \<open>overflow_end\<close> the midpoint sum overflows, the control point is infinite, and at the last
  step \<open>0 * Infinity\<close> makes both coordinates of the last output point NaN. Exact
  rounding is taken here; \<open>overflow_any_rounding\<close> has the same result for every rounding.
\<close>

theorem smoother_overflow:
  "double_point (\<lambda>x. x) overflow_start \<and> double_point (\<lambda>x. x) overflow_end \<and>
   last (createCurvedPath (\<lambda>x. x) [overflow_start, overflow_end]) = (NaN, NaN)"
proof -
  have "last (createCurvedPath (\<lambda>x. x) [overflow_start, overflow_end]) = (NaN, NaN)"
    by (subst smoothed_last_sample [of _ 0]) (simp_all add: overflow_control overflow_sample)
  moreover have "double_point (\<lambda>x. x) overflow_start" "double_point (\<lambda>x. x) overflow_end"
    by (simp_all add: double_point_def MAX_VALUE_def overflow_start_def overflow_end_def)
  ultimately show ?thesis by simp
qed

text \<open>
  Claim C8 says that the output has no two adjacent equal points when consecutive input
  points differ. On the input \<open>[(0, 0), (1, 1)]\<close> the output starts with \<open>(0, 0)\<close> twice:
  the result array is seeded with \<open>coordinates[0]\<close>, and step \<open>t = 0\<close> of segment \<open>0\<close>
  pushes the same point again. The same holds for every rounding and every input of at
  least two points whose first control point is finite (\<open>smoothed_first_twice\<close>).
\<close>

theorem smoother_duplicates_first_point:
  "take 2 (createCurvedPath (\<lambda>x. x) [(Fin 0, Fin 0), (Fin 1, Fin 1)]) =
     [(Fin 0, Fin 0), (Fin 0, Fin 0)] \<and>
   \<not> distinct_adj (createCurvedPath (\<lambda>x. x) [(Fin 0, Fin 0), (Fin 1, Fin 1)])"
proof -
  have "bounded_point (0 + 0 + 4) (control_point (\<lambda>x. x) (Fin 0, Fin 0) (Fin 1, Fin 1))"
    by (rule control_point_bounded [OF rounding_id]) (simp_all add: bounded_point_def)
  then have c: "finite_point (control_point (\<lambda>x. x) (Fin 0, Fin 0) (Fin 1, Fin 1))"
    by (rule bounded_point_finite)
  have t: "take 2 (createCurvedPath (\<lambda>x. x) [(Fin 0, Fin 0), (Fin 1, Fin 1)]) =
      [(Fin 0, Fin 0), (Fin 0, Fin 0)]"
    using smoothed_first_twice [OF rounding_id, of "[(Fin 0, Fin 0), (Fin 1, Fin 1)]"] c
    by (simp add: double_point_def finite_point_def MAX_VALUE_def)
  from take_two_Cons [OF t]
  obtain zs where zs: "createCurvedPath (\<lambda>x. x) [(Fin 0, Fin 0), (Fin 1, Fin 1)] =
      (Fin 0, Fin 0) # (Fin 0, Fin 0) # zs" ..
  have "\<not> distinct_adj (createCurvedPath (\<lambda>x. x) [(Fin 0, Fin 0), (Fin 1, Fin 1)])"
    unfolding zs by simp
  with t show ?thesis ..
qed

section \<open>Properties of the selection\<close>

text \<open>The guard window covers the camera flight and a margin.\<close>

lemma guard_covers_flight: "FLY_DURATION < ANIMATION_BUFFER"
  by (simp add: FLY_DURATION_def ANIMATION_BUFFER_def)

text \<open>
  From an unselected state with the flag clear and no timeout pending (a fresh session, or
  any later moment when every timeout has run), the guard does what the claim says:
  selecting a drone on the map sets the flag and one timeout; an interaction strictly
  inside the window keeps the selection, one strictly after it clears the selection.
\<close>

lemma selection_guard_fresh:
  assumes "selectedDrone st = None" and "\<not> isProgrammaticMove st" and "timers st = []"
      and "find (\<lambda>d. registration_of (properties d) = Some (Str r)) (droneData st) \<noteq> None"
      and "r \<noteq> []"
  shows "\<exists>st1. step (t0, Select (Some (Str r))) st = Inr st1 \<and>
           selectedDrone st1 = Some (Str r) \<and> isProgrammaticMove st1 \<and>
           timers st1 = [t0 + ANIMATION_BUFFER] \<and>
           (t0 \<le> t1 \<and> t1 < t0 + ANIMATION_BUFFER \<longrightarrow>
              map_sum id selectedDrone (step (t1, Interaction) st1) = Inr (Some (Str r))) \<and>
           (t0 + ANIMATION_BUFFER < t1 \<longrightarrow>
              map_sum id selectedDrone (step (t1, Interaction) st1) = Inr None)"
proof -
  let ?s = "st \<lparr> selectedDrone := Some (Str r), isProgrammaticMove := True,
                  timers := [t0 + ANIMATION_BUFFER] \<rparr>"
  have s: "step (t0, Select (Some (Str r))) st = Inr ?s"
    using assms
    by (auto simp: setSelectedDrone_def fire_timers_def flyToSelected_def split: option.splits)
  show ?thesis
    unfolding s
    by (simp add: fire_timers_def resetSelection_def setSelectedDrone_def flyToSelected_def)
qed

text \<open>The state after \<open>stale_trace\<close>: unselected, flag clear, one timeout pending.\<close>

lemma stale_state:
  "map_sum id (\<lambda>st. (selectedDrone st, isProgrammaticMove st, timers st))
     (run stale_trace initial_state) = Inr (None, False, [1700])"
  by (simp add: stale_trace_def two_drones_def initial_state_def handleMessage_def
      mergeDroneData_def mergeDroneData_step_def point_update_def registration_of_def
      fire_timers_def flyToSelected_def setSelectedDrone_def resetSelection_def
      ANIMATION_BUFFER_def)

text \<open>
  Claim C6 says that, from the unselected state, a map interaction strictly inside the guard
  window of a selection leaves the selection in place. After \<open>stale_trace\<close> the state is
  unselected; selecting \<open>R1\<close> at 1300 sets the flag, with its own timeout due 2400; the
  older timeout, due 1700, clears the flag, and a drag at 1800, inside the window, clears
  the selection.
\<close>

theorem stale_timeout_breaks_guard:
  "map_sum id selectedDrone (run stale_trace initial_state) = Inr None \<and>
   map_sum id (\<lambda>st. (selectedDrone st, isProgrammaticMove st, timers st))
     (run (stale_trace @ [(1300, Select (Some (Str ''R1'')))]) initial_state)
     = Inr (Some (Str ''R1''), True, [1700, 1300 + ANIMATION_BUFFER]) \<and>
   1300 < (1800::nat) \<and> 1800 < 1300 + ANIMATION_BUFFER \<and>
   map_sum id selectedDrone
     (run (stale_trace @ [(1300, Select (Some (Str ''R1''))), (1800, Interaction)])
        initial_state) = Inr None"
  by (simp add: stale_trace_def two_drones_def initial_state_def handleMessage_def
      mergeDroneData_def mergeDroneData_step_def point_update_def registration_of_def
      fire_timers_def flyToSelected_def setSelectedDrone_def resetSelection_def
      ANIMATION_BUFFER_def)

end
